theory Spec2Isabelle
  imports Main "HOL-Library.Word"
begin

section \<open>JavaScript strings\<close>

text \<open>
  A JavaScript string is a sequence of UTF-16 code units; \<open>.length\<close> counts code units.
  String literals of the sources are ASCII and are written through \<open>js\<close>.
\<close>

type_synonym jschar = "16 word"
type_synonym jsstring = "jschar list"

definition js :: "string \<Rightarrow> jsstring" where
  "js s = map of_char s"

definition LF :: jschar where
  "LF = 0x0A"

text \<open>
  \<open>String.prototype.trim\<close> removes WhiteSpace and LineTerminator code units from both
  ends: TAB, LF, VT, FF, CR, SP, NBSP, the Unicode space separators (category Zs), LS, PS
  and the byte order mark.
\<close>

definition isTrimmable :: "jschar \<Rightarrow> bool" where
  "isTrimmable c \<longleftrightarrow>
     c = 0x09 \<or> c = 0x0A \<or> c = 0x0B \<or> c = 0x0C \<or> c = 0x0D \<or> c = 0x20 \<or> c = 0xA0 \<or>
     c = 0x1680 \<or> (0x2000 \<le> c \<and> c \<le> 0x200A) \<or> c = 0x2028 \<or> c = 0x2029 \<or>
     c = 0x202F \<or> c = 0x205F \<or> c = 0x3000 \<or> c = 0xFEFF"

definition trim :: "jsstring \<Rightarrow> jsstring" where
  "trim s = rev (dropWhile isTrimmable (rev (dropWhile isTrimmable s)))"

text \<open>\<open>s.split("\n")\<close>: the pieces between line feeds; the empty string gives one empty piece.\<close>

fun splitLines :: "jsstring \<Rightarrow> jsstring list" where
  "splitLines [] = [[]]"
| "splitLines (c # cs) =
     (if c = LF then [] # splitLines cs
      else (case splitLines cs of
              l # ls \<Rightarrow> (c # l) # ls
            | [] \<Rightarrow> [[c]]))"

text \<open>\<open>parts.join(sep)\<close>.\<close>

fun join :: "jsstring \<Rightarrow> jsstring list \<Rightarrow> jsstring" where
  "join sep [] = []"
| "join sep [x] = x"
| "join sep (x # y # ys) = x @ sep @ join sep (y # ys)"

text \<open>\<open>s.slice(n)\<close> for an index \<open>n \<ge> 0\<close>: the code units from offset \<open>n\<close> on.\<close>

definition slice :: "jsstring \<Rightarrow> nat \<Rightarrow> jsstring" where
  "slice s n = drop n s"

section \<open>\<open>JSON.stringify\<close> with an indentation of two spaces\<close>

definition hexDigit :: "nat \<Rightarrow> jschar" where
  "hexDigit d = (if d < 10 then of_nat (48 + d) else of_nat (87 + d))"

definition unicodeEscape :: "jschar \<Rightarrow> jsstring" where
  "unicodeEscape c =
     [0x5C, 0x75,
      hexDigit (unat c div 4096), hexDigit (unat c div 256 mod 16),
      hexDigit (unat c div 16 mod 16), hexDigit (unat c mod 16)]"

definition isLeadingSurrogate :: "jschar \<Rightarrow> bool" where
  "isLeadingSurrogate c \<longleftrightarrow> 0xD800 \<le> c \<and> c \<le> 0xDBFF"

definition isTrailingSurrogate :: "jschar \<Rightarrow> bool" where
  "isTrailingSurrogate c \<longleftrightarrow> 0xDC00 \<le> c \<and> c \<le> 0xDFFF"

text \<open>
  One code point that is a single code unit: the two-character escapes of the table
  (backspace, tab, line feed, form feed, carriage return, double quote, backslash), a
  \<open>\uXXXX\<close> escape for the other control characters and for a lone surrogate, the code
  unit itself otherwise.
\<close>

definition quoteUnit :: "jschar \<Rightarrow> jsstring" where
  "quoteUnit c =
     (if c = 0x08 then [0x5C, 0x62]
      else if c = 0x09 then [0x5C, 0x74]
      else if c = 0x0A then [0x5C, 0x6E]
      else if c = 0x0C then [0x5C, 0x66]
      else if c = 0x0D then [0x5C, 0x72]
      else if c = 0x22 then [0x5C, 0x22]
      else if c = 0x5C then [0x5C, 0x5C]
      else if c < 0x20 \<or> isLeadingSurrogate c \<or> isTrailingSurrogate c then unicodeEscape c
      else [c])"

text \<open>
  The string is read code point by code point: a leading surrogate followed by a trailing
  one is one code point above U+FFFF and is copied as its two code units.
\<close>

fun quoteCodePoints :: "jsstring \<Rightarrow> jsstring" where
  "quoteCodePoints [] = []"
| "quoteCodePoints [c] = quoteUnit c"
| "quoteCodePoints (c # d # ds) =
     (if isLeadingSurrogate c \<and> isTrailingSurrogate d then c # d # quoteCodePoints ds
      else quoteUnit c @ quoteCodePoints (d # ds))"

definition quoteJSONString :: "jsstring \<Rightarrow> jsstring" where
  "quoteJSONString s = [0x22] @ quoteCodePoints s @ [0x22]"

text \<open>The property values that \<open>formatContextBlock\<close> serialises: a string or an array of strings.\<close>

datatype jsonValue = JString jsstring | JArray "jsstring list"

definition gap :: jsstring where
  "gap = js ''  ''"

fun serializeJSONProperty :: "jsstring \<Rightarrow> jsonValue \<Rightarrow> jsstring" where
  "serializeJSONProperty indent (JString s) = quoteJSONString s"
| "serializeJSONProperty indent (JArray xs) =
     (if xs = [] then js ''[]''
      else js ''['' @ [LF] @ (indent @ gap) @
           join (js '','' @ [LF] @ (indent @ gap)) (map quoteJSONString xs) @
           [LF] @ indent @ js '']'')"

definition serializeJSONObject :: "(jsstring \<times> jsonValue) list \<Rightarrow> jsstring" where
  "serializeJSONObject props =
     (if props = [] then js ''{}''
      else js ''{'' @ [LF] @ gap @
           join (js '','' @ [LF] @ gap)
             (map (\<lambda>(k, v). quoteJSONString k @ js '': '' @ serializeJSONProperty gap v) props) @
           [LF] @ js ''}'')"

section \<open>utils/format.js\<close>

text \<open>
  The summary object \<open>{ topic, user_goal, important_facts, decisions_made, current_task }\<close>.
  A property holds a value of its type (a string, or an array of strings), or it is missing
  (\<open>undefined\<close>) or holds one of the other falsy values.
\<close>

datatype falsy = Undefined | Null | FalseValue | Zero | NotANumber

datatype 'a property = Falsy falsy | Value 'a

record summary =
  topic :: "jsstring property"
  user_goal :: "jsstring property"
  important_facts :: "jsstring list property"
  decisions_made :: "jsstring list property"
  current_task :: "jsstring property"

text \<open>The truth value of a string property: a string is falsy exactly when it is empty.\<close>

fun truthy :: "jsstring property \<Rightarrow> bool" where
  "truthy (Falsy f) = False"
| "truthy (Value s) = (s \<noteq> [])"

text \<open>\<open>x || ""\<close> on a string property and \<open>x || []\<close> on an array property (an array is truthy).\<close>

fun orEmptyString :: "jsstring property \<Rightarrow> jsstring" where
  "orEmptyString (Falsy f) = []"
| "orEmptyString (Value s) = (if s = [] then [] else s)"

fun orEmptyArray :: "jsstring list property \<Rightarrow> jsstring list" where
  "orEmptyArray (Falsy f) = []"
| "orEmptyArray (Value xs) = xs"

definition contextJson :: "summary \<Rightarrow> jsstring" where
  "contextJson s = serializeJSONObject
     [(js ''topic'', JString (orEmptyString (topic s))),
      (js ''user_goal'', JString (orEmptyString (user_goal s))),
      (js ''important_facts'', JArray (orEmptyArray (important_facts s))),
      (js ''decisions_made'', JArray (orEmptyArray (decisions_made s))),
      (js ''current_task'', JString (orEmptyString (current_task s)))]"

definition question :: "summary \<Rightarrow> jsstring" where
  "question s =
     (case current_task s of
        Value task \<Rightarrow>
          if task \<noteq> [] then js ''Please help me continue with: '' @ task
          else js ''What are your thoughts on the above context?''
      | Falsy f \<Rightarrow> js ''What are your thoughts on the above context?'')"

definition formatContextBlock :: "summary \<Rightarrow> jsstring" where
  "formatContextBlock s = join [LF]
     [js ''I am continuing a conversation from another AI. Here is the structured context:'',
      [],
      contextJson s,
      [],
      question s]"

section \<open>background.js: the coordinator\<close>

text \<open>
  \<open>pendingContext[claudeTabId] = { contextBlock, sourceTabId }\<close> and
  \<open>pendingReview[claudeTabId] = sourceTabId\<close>. A call of \<open>chrome.tabs.create\<close> leaves a callback
  behind that closes over \<open>contextBlock\<close> and \<open>sourceTabId\<close>; the callbacks not yet called are
  part of the state.
\<close>

record pendingEntry =
  contextBlock :: jsstring
  sourceTabId :: int

record coordinator =
  pendingContext :: "int \<rightharpoonup> pendingEntry"
  pendingReview :: "int \<rightharpoonup> int"
  createCallbacks :: "pendingEntry list"

definition initial :: coordinator where
  "initial = \<lparr>pendingContext = Map.empty, pendingReview = Map.empty, createCallbacks = []\<rparr>"

text \<open>
  A message to the service worker. \<open>CAPTURE\<close> carries \<open>message.summary\<close>, \<open>None\<close> when it is
  missing or not an object.
\<close>

datatype message =
    CAPTURE "summary option"
  | CLAUDE_READY
  | CLAUDE_RESPONSE jsstring
  | OTHER_MESSAGE

text \<open>What a handler does to the outside.\<close>

datatype effect =
    SendResponseInject jsstring
  | SendResponseNull
  | TabsCreate
  | TabsSendInjectCritique int jsstring
  | ConsoleError
  | ConsoleWarn

text \<open>
  \<open>sender.tab && sender.tab.id\<close>: \<open>None\<close> when the sender is not a tab. A number is truthy
  when it is not 0.
\<close>

fun truthyTab :: "int option \<Rightarrow> bool" where
  "truthyTab None = False"
| "truthyTab (Some n) = (n \<noteq> 0)"

definition handleCapture :: "summary option \<Rightarrow> int option \<Rightarrow> coordinator \<Rightarrow> coordinator \<times> effect list" where
  "handleCapture summ sourceTab st =
     (case summ of
        None \<Rightarrow> (st, [ConsoleError])
      | Some s \<Rightarrow>
          if \<not> truthyTab sourceTab then (st, [ConsoleError])
          else
            (st\<lparr>createCallbacks := createCallbacks st @
                   [\<lparr>contextBlock = formatContextBlock s, sourceTabId = the sourceTab\<rparr>]\<rparr>,
             [TabsCreate]))"

definition critiquePreamble :: jsstring where
  "critiquePreamble =
     js ''Another AI reviewed your answer. Revise your response considering this critique:'' @ [LF, LF]"

definition sendCritiqueToTab :: "int \<Rightarrow> jsstring \<Rightarrow> effect list" where
  "sendCritiqueToTab tabId claudeResponse =
     [TabsSendInjectCritique tabId (critiquePreamble @ claudeResponse)]"

text \<open>
  The \<open>onMessage\<close> listener. \<open>pendingContext[senderTabId]\<close> is an object and so truthy when
  present; \<open>pendingReview[senderTabId]\<close> is a number and truthy when present and not 0.
\<close>

fun onMessage :: "message \<Rightarrow> int option \<Rightarrow> coordinator \<Rightarrow> coordinator \<times> effect list" where
  "onMessage (CAPTURE summ) senderTabId st = handleCapture summ senderTabId st"
| "onMessage CLAUDE_READY senderTabId st =
     (case (if truthyTab senderTabId then pendingContext st (the senderTabId) else None) of
        Some e \<Rightarrow>
          (st\<lparr>pendingContext := (pendingContext st)(the senderTabId := None),
              pendingReview := (pendingReview st)(the senderTabId \<mapsto> sourceTabId e)\<rparr>,
           [SendResponseInject (contextBlock e)])
      | None \<Rightarrow> (st, [SendResponseNull]))"
| "onMessage (CLAUDE_RESPONSE content) senderTabId st =
     (case (if truthyTab senderTabId then pendingReview st (the senderTabId) else None) of
        Some src \<Rightarrow>
          if src \<noteq> 0
          then (st\<lparr>pendingReview := (pendingReview st)(the senderTabId := None)\<rparr>,
                sendCritiqueToTab src content)
          else (st, [])
      | None \<Rightarrow> (st, []))"
| "onMessage OTHER_MESSAGE senderTabId st = (st, [])"

text \<open>
  The callback of \<open>chrome.tabs.create\<close>: \<open>k\<close> says which of the outstanding callbacks is
  called, \<open>created\<close> is \<open>tab.id\<close>, or \<open>None\<close> when \<open>chrome.runtime.lastError\<close> is set.
\<close>

definition tabCreated :: "nat \<Rightarrow> int option \<Rightarrow> coordinator \<Rightarrow> coordinator \<times> effect list" where
  "tabCreated k created st =
     (if k < length (createCallbacks st) then
        (let e = createCallbacks st ! k;
             rest = take k (createCallbacks st) @ drop (Suc k) (createCallbacks st)
         in case created of
              None \<Rightarrow> (st\<lparr>createCallbacks := rest\<rparr>, [ConsoleError])
            | Some tabId \<Rightarrow>
                (st\<lparr>pendingContext := (pendingContext st)(tabId \<mapsto> e), createCallbacks := rest\<rparr>, []))
      else (st, []))"

text \<open>
  The callback of \<open>chrome.tabs.sendMessage\<close> in \<open>sendCritiqueToTab\<close>: a warning when
  \<open>chrome.runtime.lastError\<close> is set, nothing else.
\<close>

definition critiqueCallback :: "bool \<Rightarrow> coordinator \<Rightarrow> coordinator \<times> effect list" where
  "critiqueCallback lastError st = (st, if lastError then [ConsoleWarn] else [])"

text \<open>The events of the service worker: a message from a sender, or one of the two callbacks.\<close>

datatype event =
    Message message "int option"
  | TabCreated nat "int option"
  | CritiqueSent bool

fun step :: "event \<Rightarrow> coordinator \<Rightarrow> coordinator \<times> effect list" where
  "step (Message m sender) st = onMessage m sender st"
| "step (TabCreated k created) st = tabCreated k created st"
| "step (CritiqueSent lastError) st = critiqueCallback lastError st"

fun run :: "event list \<Rightarrow> coordinator \<Rightarrow> coordinator" where
  "run [] st = st"
| "run (e # es) st = run es (fst (step e st))"

text \<open>
  Tab creation assigns fresh identities: a tab that has just been created has an identity
  that no routing entry carries.
\<close>

fun freshTab :: "event \<Rightarrow> coordinator \<Rightarrow> bool" where
  "freshTab (TabCreated k (Some tabId)) st =
     (pendingContext st tabId = None \<and> pendingReview st tabId = None)"
| "freshTab _ st = True"

fun freshTabs :: "event list \<Rightarrow> coordinator \<Rightarrow> bool" where
  "freshTabs [] st = True"
| "freshTabs (e # es) st = (freshTab e st \<and> freshTabs es (fst (step e st)))"

text \<open>The place of a tab identity in the lifecycle of a routing entry.\<close>

datatype lifecycle = Absent | AwaitingInjection | AwaitingResult | InBoth

definition lifecycleOf :: "coordinator \<Rightarrow> int \<Rightarrow> lifecycle" where
  "lifecycleOf st t =
     (case (pendingContext st t, pendingReview st t) of
        (None, None) \<Rightarrow> Absent
      | (Some _, None) \<Rightarrow> AwaitingInjection
      | (None, Some _) \<Rightarrow> AwaitingResult
      | (Some _, Some _) \<Rightarrow> InBoth)"

definition lifecycleMove :: "lifecycle \<Rightarrow> lifecycle \<Rightarrow> bool" where
  "lifecycleMove p q \<longleftrightarrow>
     p = q \<or>
     (p = Absent \<and> q = AwaitingInjection) \<or>
     (p = AwaitingInjection \<and> q = AwaitingResult) \<or>
     (p = AwaitingResult \<and> q = Absent)"

text \<open>
  What every reachable coordinator state satisfies: \<open>handleCapture\<close> refuses a falsy source
  tab and the \<open>CLAUDE_READY\<close> branch refuses a falsy sender, so no falsy tab identity is ever
  a key or a recorded source of \<open>pendingReview\<close>.
\<close>

definition truthyRouting :: "coordinator \<Rightarrow> bool" where
  "truthyRouting st \<longleftrightarrow>
     (\<forall>t s. pendingReview st t = Some s \<longrightarrow> t \<noteq> 0 \<and> s \<noteq> 0) \<and>
     (\<forall>t e. pendingContext st t = Some e \<longrightarrow> sourceTabId e \<noteq> 0) \<and>
     (\<forall>e \<in> set (createCallbacks st). sourceTabId e \<noteq> 0)"

definition exclusive :: "coordinator \<Rightarrow> bool" where
  "exclusive st \<longleftrightarrow> (\<forall>t. pendingContext st t = None \<or> pendingReview st t = None)"

section \<open>content/claude.js: extracting the response\<close>

definition extractResponse :: "jsstring \<Rightarrow> jsstring \<Rightarrow> jsstring" where
  "extractResponse beforeText afterText =
     (let raw = trim (slice afterText (length beforeText));
          meaningful = filter (\<lambda>l. length l > 10) (map trim (splitLines raw))
      in trim (join [LF] meaningful))"

section \<open>content/claude.js: waiting for the response\<close>

text \<open>
  The four constants of \<open>waitForClaudeResponse\<close>. The functions below take them as a
  parameter, so that a property can be stated for every threshold; the source runs with
  \<open>defaults\<close>.
\<close>

record tuning =
  POLL_MS :: nat
  STABLE_NEEDED :: nat
  MIN_NEW_CHARS :: nat
  TIMEOUT_MS :: nat

definition defaults :: tuning where
  "defaults = \<lparr>POLL_MS = 500, STABLE_NEEDED = 4, MIN_NEW_CHARS = 50, TIMEOUT_MS = 90000\<rparr>"

text \<open>The variables that the closure \<open>tick\<close> keeps between polls.\<close>

record detector =
  phase :: nat
  lastLength :: nat
  stableCount :: nat
  elapsed :: nat

datatype settled = Resolved jsstring | TimedOut

text \<open>
  One call of \<open>tick\<close>; \<open>currentText\<close> is what \<open>scopeEl.innerText\<close> gives at this poll.
  \<open>Inl\<close> settles the promise, \<open>Inr\<close> is the state with which the next poll is scheduled.
\<close>

definition tick :: "tuning \<Rightarrow> jsstring \<Rightarrow> detector \<Rightarrow> jsstring \<Rightarrow> settled + detector" where
  "tick cfg snapshot st currentText =
     (if elapsed st \<ge> TIMEOUT_MS cfg then Inl TimedOut
      else if phase st = 1 then
        (if length currentText > length snapshot + MIN_NEW_CHARS cfg
         then Inr (st\<lparr>phase := 2, lastLength := length currentText,
                      elapsed := elapsed st + POLL_MS cfg\<rparr>)
         else Inr (st\<lparr>elapsed := elapsed st + POLL_MS cfg\<rparr>))
      else if length currentText = lastLength st then
        (if stableCount st + 1 \<ge> STABLE_NEEDED cfg
         then Inl (Resolved (extractResponse snapshot currentText))
         else Inr (st\<lparr>stableCount := stableCount st + 1, elapsed := elapsed st + POLL_MS cfg\<rparr>))
      else Inr (st\<lparr>stableCount := 0, lastLength := length currentText,
                   elapsed := elapsed st + POLL_MS cfg\<rparr>))"

text \<open>
  The polls, one per text read; once the promise is settled no further poll runs.
  \<open>Inr\<close> after the last read means that the promise is still pending.
\<close>

fun ticks :: "tuning \<Rightarrow> jsstring \<Rightarrow> detector \<Rightarrow> jsstring list \<Rightarrow> settled + detector" where
  "ticks cfg snapshot st [] = Inr st"
| "ticks cfg snapshot st (r # rs) =
     (case tick cfg snapshot st r of
        Inl out \<Rightarrow> Inl out
      | Inr st' \<Rightarrow> ticks cfg snapshot st' rs)"

text \<open>
  \<open>scopeText\<close> is \<open>scopeEl.innerText\<close> when the promise is created, \<open>reads\<close> are the texts
  of the polls that follow.
\<close>

definition waitForClaudeResponse ::
    "tuning \<Rightarrow> jsstring \<Rightarrow> jsstring \<Rightarrow> jsstring list \<Rightarrow> settled + detector" where
  "waitForClaudeResponse cfg scopeText snapshot reads =
     ticks cfg snapshot
       \<lparr>phase = 1, lastLength = length scopeText, stableCount = 0, elapsed = 0\<rparr> reads"

section \<open>content/claude.js: the injection flow\<close>

text \<open>
  What the page of claude.ai gives to one run of the flow: whether the input field is found
  within 15 seconds, which submit controls exist, the text of the scope element when the
  snapshot is taken, when the detector starts, and at each poll.
\<close>

record claudePage =
  inputFound :: bool
  sendButtonByLabel :: bool
  buttonInContainer :: bool
  textAtSnapshot :: jsstring
  textAfterSubmit :: jsstring
  textAtPolls :: "jsstring list"

text \<open>\<open>submitClaudeInput\<close>: the three ways to submit, in order; the result says whether one was used.\<close>

definition submitClaudeInput :: "claudePage \<Rightarrow> bool \<Rightarrow> bool" where
  "submitClaudeInput page inputEl =
     (if sendButtonByLabel page then True
      else if inputEl \<and> buttonInContainer page then True
      else if inputEl then True
      else False)"

datatype flowError = InputNotFound | NoSendButton | ResponseTimedOut

datatype flowEnd =
    SentClaudeResponse jsstring
  | EmptyNotSent
  | Thrown flowError
  | StillWaiting

definition runInjectionFlow :: "claudePage \<Rightarrow> jsstring \<Rightarrow> flowEnd" where
  "runInjectionFlow page block =
     (if \<not> inputFound page then Thrown InputNotFound
      else
        let snapshot = textAtSnapshot page;
            submitted = submitClaudeInput page True
        in if \<not> submitted then Thrown NoSendButton
           else
             (case waitForClaudeResponse defaults (textAfterSubmit page) snapshot (textAtPolls page) of
                Inr st \<Rightarrow> StillWaiting
              | Inl TimedOut \<Rightarrow> Thrown ResponseTimedOut
              | Inl (Resolved claudeResponse) \<Rightarrow>
                  if claudeResponse = [] then EmptyNotSent
                  else SentClaudeResponse claudeResponse))"

text \<open>The \<open>CLAUDE_RESPONSE\<close> messages that a run sends to the service worker.\<close>

fun sentToBackground :: "flowEnd \<Rightarrow> message list" where
  "sentToBackground (SentClaudeResponse content) = [CLAUDE_RESPONSE content]"
| "sentToBackground _ = []"

text \<open>
  The callback of the \<open>CLAUDE_READY\<close> message: the flow runs only for an \<open>INJECT\<close> reply with a
  non-empty context block.
\<close>

fun onReadyReply :: "effect \<Rightarrow> claudePage \<Rightarrow> flowEnd option" where
  "onReadyReply (SendResponseInject block) page =
     (if block = [] then None else Some (runInjectionFlow page block))"
| "onReadyReply _ page = None"

section \<open>Reading the context block back\<close>

text \<open>
  The round trip of the formatter needs its inverse: a reader that finds the JSON text in a
  context block and returns the five fields. The repository has no such reader (the block
  is read on the other site), so this one is written for the property alone. It reads
  JSON text as \<open>JSON.parse\<close> does, for an object whose values are strings or arrays of
  strings: white space between tokens, strings with the escapes
  \<open>\" \\ \/ \b \f \n \r \t \uXXXX\<close>, and no unescaped control character in a string.
\<close>

text \<open>The value of a hexadecimal digit, in either case.\<close>

definition hexValue :: "jschar \<Rightarrow> nat option" where
  "hexValue c =
     (if 0x30 \<le> c \<and> c \<le> 0x39 then Some (unat c - 48)
      else if 0x61 \<le> c \<and> c \<le> 0x66 then Some (unat c - 87)
      else if 0x41 \<le> c \<and> c \<le> 0x46 then Some (unat c - 55)
      else None)"

definition parseHex4 :: "jschar \<Rightarrow> jschar \<Rightarrow> jschar \<Rightarrow> jschar \<Rightarrow> jschar option" where
  "parseHex4 a b c d =
     (case (hexValue a, hexValue b, hexValue c, hexValue d) of
        (Some w, Some x, Some y, Some z) \<Rightarrow> Some (of_nat (((w * 16 + x) * 16 + y) * 16 + z))
      | _ \<Rightarrow> None)"

definition unescape :: "jschar \<Rightarrow> jschar option" where
  "unescape e =
     (if e = 0x22 then Some 0x22
      else if e = 0x5C then Some 0x5C
      else if e = 0x2F then Some 0x2F
      else if e = 0x62 then Some 0x08
      else if e = 0x66 then Some 0x0C
      else if e = 0x6E then Some 0x0A
      else if e = 0x72 then Some 0x0D
      else if e = 0x74 then Some 0x09
      else None)"

definition consResult :: "'a \<Rightarrow> ('a list \<times> jsstring) option \<Rightarrow> ('a list \<times> jsstring) option" where
  "consResult x res = (case res of None \<Rightarrow> None | Some (xs, rest) \<Rightarrow> Some (x # xs, rest))"

text \<open>
  The characters of a string after its opening quote, up to the closing quote; the result
  is the string and the text after it.
\<close>

fun parseChars :: "jsstring \<Rightarrow> (jsstring \<times> jsstring) option" where
  "parseChars [] = None"
| "parseChars (c # cs) =
     (if c = 0x22 then Some ([], cs)
      else if c = 0x5C then
        (case cs of
           [] \<Rightarrow> None
         | e # es \<Rightarrow>
             if e = 0x75 then
               (case es of
                  h1 # h2 # h3 # h4 # rest \<Rightarrow>
                    (case parseHex4 h1 h2 h3 h4 of
                       None \<Rightarrow> None
                     | Some u \<Rightarrow> consResult u (parseChars rest))
                | _ \<Rightarrow> None)
             else
               (case unescape e of
                  None \<Rightarrow> None
                | Some u \<Rightarrow> consResult u (parseChars es)))
      else if c < 0x20 then None
      else consResult c (parseChars cs))"

definition parseStringLit :: "jsstring \<Rightarrow> (jsstring \<times> jsstring) option" where
  "parseStringLit s = (case s of [] \<Rightarrow> None | c # cs \<Rightarrow> if c = 0x22 then parseChars cs else None)"

definition isJsonSpace :: "jschar \<Rightarrow> bool" where
  "isJsonSpace c \<longleftrightarrow> c = 0x20 \<or> c = 0x0A \<or> c = 0x0D \<or> c = 0x09"

definition skipSpace :: "jsstring \<Rightarrow> jsstring" where
  "skipSpace s = dropWhile isJsonSpace s"

text \<open>The elements of a non-empty array of strings, up to the closing bracket.\<close>

function parseElements :: "jsstring \<Rightarrow> (jsstring list \<times> jsstring) option" where
  "parseElements s =
     (case parseStringLit (skipSpace s) of
        None \<Rightarrow> None
      | Some (x, r) \<Rightarrow>
          (case skipSpace r of
             [] \<Rightarrow> None
           | c # cs \<Rightarrow>
               if c = 0x2C then consResult x (parseElements cs)
               else if c = 0x5D then Some ([x], cs)
               else None))"
  by pat_completeness auto
termination
proof (relation "measure length")
  show "wf (measure length)" by simp
next
  fix s :: jsstring and x2 x r ys c cs
  assume lit: "parseStringLit (skipSpace s) = Some x2" and x2: "(x, r) = x2"
    and sk: "skipSpace r = c # cs"
  have chars: "parseChars t = Some (y, q) \<Longrightarrow> length q < length t" for t y q
  proof (induction t arbitrary: y q rule: parseChars.induct)
    case 1
    then show ?case by simp
  next
    case (2 c cs)
    then show ?case
      by (fastforce simp: consResult_def split: if_splits list.splits option.splits)
  qed
  from lit x2 have "length r < length (skipSpace s)"
    by (auto simp: parseStringLit_def split: list.splits if_splits dest!: chars)
  moreover have "length (skipSpace s) \<le> length s"
    by (simp add: skipSpace_def length_dropWhile_le)
  moreover have "length (skipSpace r) \<le> length r"
    by (simp add: skipSpace_def length_dropWhile_le)
  ultimately show "(cs, s) \<in> measure length"
    using sk by simp
qed

declare parseElements.simps [simp del]


definition parseArray :: "jsstring \<Rightarrow> (jsstring list \<times> jsstring) option" where
  "parseArray s =
     (case skipSpace s of
        [] \<Rightarrow> None
      | c # cs \<Rightarrow> if c = 0x5D then Some ([], cs) else parseElements s)"

definition parseValue :: "jsstring \<Rightarrow> (jsonValue \<times> jsstring) option" where
  "parseValue s =
     (case s of
        [] \<Rightarrow> None
      | c # cs \<Rightarrow>
          if c = 0x22 then map_option (\<lambda>(x, r). (JString x, r)) (parseChars cs)
          else if c = 0x5B then map_option (\<lambda>(xs, r). (JArray xs, r)) (parseArray cs)
          else None)"

text \<open>The members of a non-empty object, up to the closing brace.\<close>

function parseMembers :: "jsstring \<Rightarrow> ((jsstring \<times> jsonValue) list \<times> jsstring) option" where
  "parseMembers s =
     (case parseStringLit (skipSpace s) of
        None \<Rightarrow> None
      | Some (k, r) \<Rightarrow>
          (case skipSpace r of
             [] \<Rightarrow> None
           | c # cs \<Rightarrow>
               if c \<noteq> 0x3A then None
               else
                 (case parseValue (skipSpace cs) of
                    None \<Rightarrow> None
                  | Some (v, r') \<Rightarrow>
                      (case skipSpace r' of
                         [] \<Rightarrow> None
                       | d # ds \<Rightarrow>
                           if d = 0x2C then consResult (k, v) (parseMembers ds)
                           else if d = 0x7D then Some ([(k, v)], ds)
                           else None))))"
  by pat_completeness auto
termination
proof (relation "measure length")
  show "wf (measure length)" by simp
next
  fix s :: jsstring and x2 k r c cs x2a v r' d ds
  assume key: "parseStringLit (skipSpace s) = Some x2" and x2: "(k, r) = x2"
    and colon: "skipSpace r = c # cs"
    and val: "parseValue (skipSpace cs) = Some x2a" and x2a: "(v, r') = x2a"
    and comma: "skipSpace r' = d # ds"
  have skip: "length (skipSpace t) \<le> length t" for t
    by (simp add: skipSpace_def length_dropWhile_le)
  have chars: "parseChars t = Some (y, q) \<Longrightarrow> length q < length t" for t y q
  proof (induction t arbitrary: y q rule: parseChars.induct)
    case 1
    then show ?case by simp
  next
    case (2 c cs)
    then show ?case
      by (fastforce simp: consResult_def split: if_splits list.splits option.splits)
  qed
  have lit: "parseStringLit t = Some (y, q) \<Longrightarrow> length q < length t" for t y q
    by (auto simp: parseStringLit_def split: list.splits if_splits dest!: chars)
  have elems: "parseElements t = Some (ys, q) \<Longrightarrow> length q < length t" for t ys q
  proof (induction t arbitrary: ys q rule: parseElements.induct)
    case (1 t)
    from "1.prems" obtain x r1 c1 cs1 where
      a: "parseStringLit (skipSpace t) = Some (x, r1)" and b: "skipSpace r1 = c1 # cs1"
      by (auto simp: parseElements.simps [of t] split: option.splits list.splits)
    from lit [OF a] skip [of t] skip [of r1] b have cs1: "length cs1 < length t" by simp
    show ?case
    proof (cases "c1 = 0x2C")
      case True
      with "1.prems" a b obtain ys' where "parseElements cs1 = Some (ys', q)"
        by (auto simp: parseElements.simps [of t] consResult_def split: option.splits)
      from "1.IH" [OF a refl b True this] cs1 show ?thesis by simp
    next
      case False
      with "1.prems" a b have "q = cs1"
        by (auto simp: parseElements.simps [of t] split: if_splits)
      with cs1 show ?thesis by simp
    qed
  qed
  have arr: "parseArray t = Some (ys, q) \<Longrightarrow> length q \<le> length t" for t ys q
    using skip [of t]
    by (auto simp: parseArray_def split: list.splits if_splits dest!: elems)
  have pvalue: "parseValue t = Some (w, q) \<Longrightarrow> length q < length t" for t w q
    by (auto simp: parseValue_def split: list.splits if_splits dest!: chars arr)
  from key x2 have "length r < length (skipSpace s)" by (auto dest: lit)
  moreover from val x2a have "length r' < length (skipSpace cs)" by (auto dest: pvalue)
  ultimately show "(ds, s) \<in> measure length"
    using skip [of s] skip [of r] skip [of cs] skip [of r'] colon comma by simp
qed

declare parseMembers.simps [simp del]

definition parseObject :: "jsstring \<Rightarrow> ((jsstring \<times> jsonValue) list \<times> jsstring) option" where
  "parseObject s =
     (case s of
        [] \<Rightarrow> None
      | c # cs \<Rightarrow>
          if c \<noteq> 0x7B then None
          else
            (case skipSpace cs of
               [] \<Rightarrow> None
             | d # ds \<Rightarrow> if d = 0x7D then Some ([], ds) else parseMembers cs))"

text \<open>
  The block starts with the fixed first line and an empty line; the JSON text follows, and
  the members are looked up by name (the last of two equal names wins).
\<close>

definition blockHeader :: jsstring where
  "blockHeader =
     js ''I am continuing a conversation from another AI. Here is the structured context:''
       @ [LF, LF]"

definition stripHeader :: "jsstring \<Rightarrow> jsstring option" where
  "stripHeader block =
     (if take (length blockHeader) block = blockHeader
      then Some (drop (length blockHeader) block) else None)"

definition extractSummary :: "jsstring \<Rightarrow> summary option" where
  "extractSummary block =
     (case stripHeader block of
        None \<Rightarrow> None
      | Some rest \<Rightarrow>
          (case parseObject rest of
             None \<Rightarrow> None
           | Some (members, closing) \<Rightarrow>
               let m = map_of (rev members)
               in case (m (js ''topic''), m (js ''user_goal''), m (js ''important_facts''),
                        m (js ''decisions_made''), m (js ''current_task'')) of
                    (Some (JString t), Some (JString g), Some (JArray f), Some (JArray d),
                     Some (JString c)) \<Rightarrow>
                      Some \<lparr>topic = Value t, user_goal = Value g, important_facts = Value f,
                            decisions_made = Value d, current_task = Value c\<rparr>
                  | _ \<Rightarrow> None))"

text \<open>The five fields after \<open>|| ""\<close> and \<open>|| []\<close>.\<close>

definition defaulted :: "summary \<Rightarrow> summary" where
  "defaulted s =
     \<lparr>topic = Value (orEmptyString (topic s)),
      user_goal = Value (orEmptyString (user_goal s)),
      important_facts = Value (orEmptyArray (important_facts s)),
      decisions_made = Value (orEmptyArray (decisions_made s)),
      current_task = Value (orEmptyString (current_task s))\<rparr>"

text \<open>One member of the serialised object, as \<open>serializeJSONObject\<close> writes it.\<close>

definition member :: "jsstring \<times> jsonValue \<Rightarrow> jsstring" where
  "member = (\<lambda>(k, v). quoteJSONString k @ js '': '' @ serializeJSONProperty gap v)"

section \<open>Concrete inputs\<close>

text \<open>
  A summary and four runs of the coordinator that the examples below use: tab 7 sends
  \<open>CAPTURE\<close>; then the new tab gets the identity 12; then tab 12 sends \<open>CLAUDE_READY\<close>;
  then tab 12 sends \<open>CLAUDE_RESPONSE\<close>.
\<close>

definition exampleSummary :: summary where
  "exampleSummary =
     \<lparr>topic = Value (js ''X''), user_goal = Falsy Undefined, important_facts = Falsy Undefined,
      decisions_made = Falsy Undefined, current_task = Value (js ''do Y'')\<rparr>"

text \<open>The summary with every property missing.\<close>

definition emptySummary :: summary where
  "emptySummary =
     \<lparr>topic = Falsy Undefined, user_goal = Falsy Undefined, important_facts = Falsy Undefined,
      decisions_made = Falsy Undefined, current_task = Falsy Undefined\<rparr>"

text \<open>
  A summary whose topic holds a double quote, a backslash, a line feed, a control character
  and a lone surrogate, with a \<open>null\<close> goal and two facts.
\<close>

definition awkwardSummary :: summary where
  "awkwardSummary =
     \<lparr>topic = Value [0x22, 0x5C, 0x0A, 0x01, 0xD800], user_goal = Falsy Null,
      important_facts = Value [js ''a'', js ''b,]''], decisions_made = Value [],
      current_task = Value (js ''do Y'')\<rparr>"

definition captured :: "event list" where
  "captured = [Message (CAPTURE (Some exampleSummary)) (Some 7)]"

definition tabOpened :: "event list" where
  "tabOpened = captured @ [TabCreated 0 (Some 12)]"

definition contextDelivered :: "event list" where
  "contextDelivered = tabOpened @ [Message CLAUDE_READY (Some 12)]"

definition critiqueReturned :: "event list" where
  "critiqueReturned = contextDelivered @ [Message (CLAUDE_RESPONSE (js ''Too vague.'')) (Some 12)]"

text \<open>
  A page text of 1000 code units, a reply of 60 more whose only long line is one paragraph,
  and the texts of seven polls with the lengths 1000, 1020 and five times 1060.
\<close>

definition page1000 :: jsstring where
  "page1000 = replicate 1000 0x61"

definition realParagraph :: jsstring where
  "realParagraph = js ''This is a real response paragraph that is long enough.''"

definition reply60 :: jsstring where
  "reply60 = js ''Copy'' @ [LF] @ realParagraph @ [LF]"

definition scenarioReads :: "jsstring list" where
  "scenarioReads =
     [page1000, page1000 @ replicate 20 0x2E,
      page1000 @ reply60, page1000 @ reply60, page1000 @ reply60, page1000 @ reply60,
      page1000 @ reply60]"

text \<open>A page on which only short lines appear after the submission: 59 code units, no line longer than 9.\<close>

definition shortLines :: jsstring where
  "shortLines = join [LF] (replicate 6 (js ''Copy code''))"

definition noisyPage :: claudePage where
  "noisyPage =
     \<lparr>inputFound = True, sendButtonByLabel = True, buttonInContainer = False,
      textAtSnapshot = [], textAfterSubmit = [],
      textAtPolls = [shortLines, shortLines, shortLines, shortLines, shortLines]\<rparr>"

section \<open>Properties of the coordinator\<close>

lemma truthyRouting_initial: "truthyRouting initial"
  by (simp add: truthyRouting_def initial_def)

lemma truthyRouting_onMessage:
  assumes "truthyRouting st"
  shows "truthyRouting (fst (onMessage m sender st))"
proof (cases m)
  case (CAPTURE summ)
  with assms show ?thesis
    by (cases sender) (auto simp: truthyRouting_def handleCapture_def split: option.splits)
next
  case CLAUDE_READY
  with assms show ?thesis
    by (cases sender) (auto simp: truthyRouting_def split: option.splits if_splits)
next
  case (CLAUDE_RESPONSE c)
  with assms show ?thesis
    by (cases sender) (auto simp: truthyRouting_def split: option.splits if_splits)
next
  case OTHER_MESSAGE
  with assms show ?thesis by simp
qed

lemma truthyRouting_tabCreated:
  assumes "truthyRouting st"
  shows "truthyRouting (fst (tabCreated k created st))"
proof (cases "k < length (createCallbacks st)")
  case False
  with assms show ?thesis by (simp add: tabCreated_def)
next
  case True
  then have mem: "createCallbacks st ! k \<in> set (createCallbacks st)" by simp
  have sub: "set (take k (createCallbacks st) @ drop (Suc k) (createCallbacks st))
               \<subseteq> set (createCallbacks st)"
    using set_take_subset set_drop_subset by fastforce
  from assms True mem sub show ?thesis
    by (cases created) (auto simp: truthyRouting_def tabCreated_def Let_def)
qed

lemma truthyRouting_step: "truthyRouting st \<Longrightarrow> truthyRouting (fst (step e st))"
  by (cases e)
     (simp_all add: truthyRouting_onMessage truthyRouting_tabCreated critiqueCallback_def)

lemma truthyRouting_run: "truthyRouting st \<Longrightarrow> truthyRouting (run evs st)"
  by (induction evs arbitrary: st) (simp_all add: truthyRouting_step)

lemma exclusive_step:
  assumes "exclusive st" "freshTab e st"
  shows "exclusive (fst (step e st))"
proof (cases e)
  case (Message m sender)
  show ?thesis
  proof (cases m)
    case (CAPTURE summ)
    with Message assms show ?thesis
      by (auto simp: exclusive_def handleCapture_def split: option.splits)
  next
    case CLAUDE_READY
    with Message assms show ?thesis
      by (auto simp: exclusive_def split: option.splits if_splits)
  next
    case (CLAUDE_RESPONSE c)
    with Message assms show ?thesis
      by (auto simp: exclusive_def split: option.splits if_splits)
  next
    case OTHER_MESSAGE
    with Message assms show ?thesis by simp
  qed
next
  case (TabCreated k created)
  with assms show ?thesis
    by (cases created) (auto simp: exclusive_def tabCreated_def Let_def)
next
  case (CritiqueSent lastError)
  with assms show ?thesis by (simp add: critiqueCallback_def)
qed

lemma exclusive_run:
  "exclusive st \<Longrightarrow> freshTabs evs st \<Longrightarrow> exclusive (run evs st)"
  by (induction evs arbitrary: st) (simp_all add: exclusive_step)

lemma lifecycleMove_step:
  assumes "exclusive st" "freshTab e st"
  shows "lifecycleMove (lifecycleOf st t) (lifecycleOf (fst (step e st)) t)"
proof (cases e)
  case (Message m sender)
  have ex: "pendingContext st u = None \<or> pendingReview st u = None" for u
    using assms(1) by (simp add: exclusive_def)
  show ?thesis
  proof (cases m)
    case (CAPTURE summ)
    with Message show ?thesis
      by (auto simp: lifecycleMove_def handleCapture_def lifecycleOf_def split: option.splits)
  next
    case CLAUDE_READY
    with Message ex [of t] ex [of "the sender"] show ?thesis
      by (auto simp: lifecycleMove_def lifecycleOf_def split: option.splits if_splits)
  next
    case (CLAUDE_RESPONSE c)
    with Message ex [of t] ex [of "the sender"] show ?thesis
      by (auto simp: lifecycleMove_def lifecycleOf_def split: option.splits if_splits)
  next
    case OTHER_MESSAGE
    with Message show ?thesis by (simp add: lifecycleMove_def)
  qed
next
  case (TabCreated k created)
  with assms show ?thesis
    by (cases created)
       (auto simp: lifecycleMove_def lifecycleOf_def tabCreated_def Let_def split: option.splits)
next
  case (CritiqueSent lastError)
  then show ?thesis by (simp add: critiqueCallback_def lifecycleMove_def)
qed

text \<open>
  Claim C1. From the initial state, along every sequence of messages and tab-creation
  callbacks in which a created tab gets a fresh identity, no tab identity has an entry in
  both \<open>pendingContext\<close> and \<open>pendingReview\<close>, and every further event moves a tab identity
  only along absent, awaiting injection, awaiting result, absent (or leaves it where it is).
\<close>

theorem routing_lifecycle:
  assumes "freshTabs evs initial"
  shows "lifecycleOf (run evs initial) t \<noteq> InBoth \<and>
         (freshTab e (run evs initial) \<longrightarrow>
            lifecycleMove (lifecycleOf (run evs initial) t)
                          (lifecycleOf (fst (step e (run evs initial))) t))"
proof -
  have "exclusive initial" by (simp add: exclusive_def initial_def)
  then have ex: "exclusive (run evs initial)"
    using assms by (rule exclusive_run)
  then have "lifecycleOf (run evs initial) t \<noteq> InBoth"
    by (auto simp: exclusive_def lifecycleOf_def split: option.splits)
  with ex show ?thesis
    by (simp add: lifecycleMove_step)
qed

theorem routing_lifecycle_witness:
  "freshTabs critiqueReturned initial \<and>
   lifecycleOf (run captured initial) 12 = Absent \<and>
   lifecycleOf (run tabOpened initial) 12 = AwaitingInjection \<and>
   lifecycleOf (run contextDelivered initial) 12 = AwaitingResult \<and>
   lifecycleOf (run critiqueReturned initial) 12 = Absent \<and>
   freshTabs tabOpened initial \<and>
   freshTab (Message CLAUDE_READY (Some 12)) (run tabOpened initial) \<and>
   lifecycleMove (lifecycleOf (run tabOpened initial) 12)
     (lifecycleOf (fst (step (Message CLAUDE_READY (Some 12)) (run tabOpened initial))) 12)"
proof -
  note runs = critiqueReturned_def contextDelivered_def tabOpened_def captured_def initial_def
    handleCapture_def tabCreated_def
  have whole: "freshTabs critiqueReturned initial"
    by (simp add: runs)
  have fresh: "freshTabs tabOpened initial"
    by (simp add: runs)
  have places:
    "lifecycleOf (run captured initial) 12 = Absent"
    "lifecycleOf (run tabOpened initial) 12 = AwaitingInjection"
    "lifecycleOf (run contextDelivered initial) 12 = AwaitingResult"
    "lifecycleOf (run critiqueReturned initial) 12 = Absent"
    by (simp_all add: runs lifecycleOf_def sendCritiqueToTab_def)
  from routing_lifecycle [OF fresh, of 12 "Message CLAUDE_READY (Some 12)"] whole fresh places
  show ?thesis by simp
qed

text \<open>
  Claim C3. When the tab of the sender has no \<open>pendingContext\<close> entry (also when the sender
  is no tab at all), \<open>CLAUDE_READY\<close> is answered with \<open>sendResponse(null)\<close>, the reply for
  "no work", and the state of the coordinator, both tables included, is unchanged.
\<close>

theorem ready_without_context:
  assumes "\<forall>t. senderTabId = Some t \<longrightarrow> pendingContext st t = None"
  shows "onMessage CLAUDE_READY senderTabId st = (st, [SendResponseNull])"
  using assms by (cases senderTabId) auto

text \<open>
  The race: tab 7 has sent \<open>CAPTURE\<close>, the callback of \<open>chrome.tabs.create\<close> has not run yet,
  and the new tab 12 already sends \<open>CLAUDE_READY\<close>.
\<close>

theorem ready_without_context_witness:
  "pendingContext (run captured initial) 12 = None \<and>
   createCallbacks (run captured initial) \<noteq> [] \<and>
   onMessage CLAUDE_READY (Some 12) (run captured initial)
     = (run captured initial, [SendResponseNull])"
proof -
  have none: "\<forall>t. Some (12::int) = Some t \<longrightarrow> pendingContext (run captured initial) t = None"
    by (simp add: captured_def initial_def handleCapture_def)
  have pending: "createCallbacks (run captured initial) \<noteq> []"
    by (simp add: captured_def initial_def handleCapture_def)
  from ready_without_context [OF none] none pending show ?thesis by simp
qed

text \<open>
  Claim C5. In every state that the coordinator reaches from its initial state, if the tab
  of the sender has a \<open>pendingReview\<close> entry that records the source tab \<open>s\<close>, then
  \<open>CLAUDE_RESPONSE\<close> with \<open>content\<close> deletes that entry and sends one \<open>INJECT_CRITIQUE\<close>
  message to tab \<open>s\<close>, whose content is the fixed preamble followed by \<open>content\<close>.
\<close>

theorem result_with_review:
  assumes "pendingReview (run evs initial) t = Some s"
  shows "onMessage (CLAUDE_RESPONSE content) (Some t) (run evs initial) =
           ((run evs initial)\<lparr>pendingReview := (pendingReview (run evs initial))(t := None)\<rparr>,
            [TabsSendInjectCritique s (critiquePreamble @ content)])"
proof -
  have "truthyRouting (run evs initial)"
    by (rule truthyRouting_run [OF truthyRouting_initial])
  with assms have "t \<noteq> 0" "s \<noteq> 0"
    by (auto simp: truthyRouting_def)
  with assms show ?thesis
    by (simp add: sendCritiqueToTab_def)
qed

theorem result_with_review_witness:
  "pendingReview (run contextDelivered initial) 12 = Some 7 \<and>
   onMessage (CLAUDE_RESPONSE (js ''Too vague.'')) (Some 12) (run contextDelivered initial) =
     ((run contextDelivered initial)
        \<lparr>pendingReview := (pendingReview (run contextDelivered initial))(12 := None)\<rparr>,
      [TabsSendInjectCritique 7 (critiquePreamble @ js ''Too vague.'')])"
proof -
  have entry: "pendingReview (run contextDelivered initial) 12 = Some 7"
    by (simp add: contextDelivered_def tabOpened_def captured_def initial_def handleCapture_def
        tabCreated_def)
  from result_with_review [OF entry] entry show ?thesis by simp
qed

text \<open>
  Claim C6. When the tab of the sender has no \<open>pendingReview\<close> entry (also when the sender
  is no tab at all), \<open>CLAUDE_RESPONSE\<close> does nothing: no message is sent to any tab and the
  state of the coordinator, both tables included, is unchanged.
\<close>

theorem result_without_review:
  assumes "\<forall>t. senderTabId = Some t \<longrightarrow> pendingReview st t = None"
  shows "onMessage (CLAUDE_RESPONSE content) senderTabId st = (st, [])"
  using assms by (cases senderTabId) auto

theorem result_without_review_witness:
  "pendingReview (run tabOpened initial) 12 = None \<and>
   onMessage (CLAUDE_RESPONSE (js ''Too vague.'')) (Some 12) (run tabOpened initial)
     = (run tabOpened initial, [])"
proof -
  have none: "\<forall>t. Some (12::int) = Some t \<longrightarrow> pendingReview (run tabOpened initial) t = None"
    by (simp add: tabOpened_def captured_def initial_def handleCapture_def tabCreated_def)
  from result_without_review [OF none] none show ?thesis by simp
qed

section \<open>Properties of the response detector\<close>

lemma ticks_append:
  "ticks cfg snap st (xs @ ys) =
     (case ticks cfg snap st xs of Inl out \<Rightarrow> Inl out | Inr st' \<Rightarrow> ticks cfg snap st' ys)"
  by (induction xs arbitrary: st) (simp_all split: sum.splits)

lemma tick_growth_exit:
  assumes "phase st = 1" "tick cfg snap st r = Inr st'"
  shows "phase st' = (if length snap + MIN_NEW_CHARS cfg < length r then 2 else 1)"
  using assms by (auto simp: tick_def split: if_splits)

lemma tick_growth_not_resolved:
  "phase st = 1 \<Longrightarrow> tick cfg snap st r \<noteq> Inl (Resolved x)"
  by (auto simp: tick_def split: if_splits)

lemma ticks_growth_first:
  assumes "phase st = 1" "ticks cfg snap st reads = Inl (Resolved x)"
  shows "\<exists>i st'. Suc i < length reads \<and>
           length snap + MIN_NEW_CHARS cfg < length (reads ! i) \<and>
           ticks cfg snap st (take (Suc i) reads) = Inr st' \<and> phase st' = 2"
  using assms
proof (induction reads arbitrary: st)
  case Nil
  then show ?case by simp
next
  case (Cons r rs)
  from Cons.prems obtain st1 where t: "tick cfg snap st r = Inr st1"
    and rest: "ticks cfg snap st1 rs = Inl (Resolved x)"
    using tick_growth_not_resolved [of st cfg snap r]
    by (cases "tick cfg snap st r") (auto split: sum.splits)
  show ?case
  proof (cases "length snap + MIN_NEW_CHARS cfg < length r")
    case True
    with Cons.prems(1) t have "phase st1 = 2" using tick_growth_exit by metis
    moreover from rest have "rs \<noteq> []" by auto
    ultimately show ?thesis using True t
      by (intro exI [of _ 0] exI [of _ st1]) (cases rs, auto)
  next
    case False
    with Cons.prems(1) t have "phase st1 = 1" using tick_growth_exit by metis
    from Cons.IH [OF this rest] obtain i st' where
      "Suc i < length rs" "length snap + MIN_NEW_CHARS cfg < length (rs ! i)"
      "ticks cfg snap st1 (take (Suc i) rs) = Inr st'" "phase st' = 2"
      by blast
    then show ?thesis using t
      by (intro exI [of _ "Suc i"] exI [of _ st']) simp
  qed
qed

text \<open>
  The polling loop ends: every pending poll adds \<open>POLL_MS\<close> to \<open>elapsed\<close>, and a poll that
  finds \<open>elapsed\<close> at the timeout rejects. With the constants of the source the promise is
  settled after at most 181 polls.
\<close>

lemma tick_elapsed:
  "tick cfg snap st r = Inr st' \<Longrightarrow> elapsed st' = elapsed st + POLL_MS cfg"
  by (auto simp: tick_def split: if_splits)

lemma ticks_elapsed:
  "ticks cfg snap st reads = Inr st' \<Longrightarrow> elapsed st' = elapsed st + length reads * POLL_MS cfg"
proof (induction reads arbitrary: st)
  case Nil
  then show ?case by simp
next
  case (Cons r rs)
  then show ?case
    by (auto split: sum.splits dest!: tick_elapsed)
qed

lemma waitForClaudeResponse_settles:
  assumes "TIMEOUT_MS cfg \<le> n * POLL_MS cfg" "n < length reads"
  shows "\<exists>out. waitForClaudeResponse cfg scopeText snapshot reads = Inl out"
proof (rule ccontr)
  assume "\<not> ?thesis"
  then obtain st where pending: "waitForClaudeResponse cfg scopeText snapshot reads = Inr st"
    by (cases "waitForClaudeResponse cfg scopeText snapshot reads") auto
  let ?init = "\<lparr>phase = 1, lastLength = length scopeText, stableCount = 0, elapsed = 0\<rparr>"
  from assms(2) have split: "reads = take n reads @ reads ! n # drop (Suc n) reads"
    by (simp add: id_take_nth_drop)
  from pending
  have "ticks cfg snapshot ?init (take n reads @ reads ! n # drop (Suc n) reads) = Inr st"
    using split by (simp add: waitForClaudeResponse_def)
  then obtain st1 where first: "ticks cfg snapshot ?init (take n reads) = Inr st1"
    and rest: "ticks cfg snapshot st1 (reads ! n # drop (Suc n) reads) = Inr st"
    by (auto simp: ticks_append split: sum.splits)
  from ticks_elapsed [OF first] assms have "TIMEOUT_MS cfg \<le> elapsed st1"
    by simp
  then have "tick cfg snapshot st1 (reads ! n) = Inl TimedOut"
    by (simp add: tick_def)
  with rest show False by simp
qed

lemma waitForClaudeResponse_settles_defaults:
  "180 < length reads \<Longrightarrow> \<exists>out. waitForClaudeResponse defaults scopeText snapshot reads = Inl out"
  by (rule waitForClaudeResponse_settles [of _ 180]) (simp_all add: defaults_def)

lemma length_reply60: "length reply60 = 60"
  by (simp add: reply60_def realParagraph_def js_def)

lemma scenario_lengths:
  "map length scenarioReads = [1000, 1020, 1060, 1060, 1060, 1060, 1060]"
  by (simp add: scenarioReads_def page1000_def length_reply60)

lemma extract_reply60: "extractResponse page1000 (page1000 @ reply60) = realParagraph"
  by code_simp

lemma extract_shortLines: "extractResponse [] shortLines = []"
  by code_simp

lemma length_shortLines: "length shortLines = 59"
  by code_simp

text \<open>
  Claim C2. Whatever the snapshot, the threshold and the texts of the polls: when the
  detector resolves, some poll \<open>i\<close> before the resolving one read a text longer than the
  snapshot by more than \<open>MIN_NEW_CHARS\<close>, and the detector had left the growth phase and
  was still pending after that poll.
\<close>

theorem no_success_before_growth:
  assumes "waitForClaudeResponse cfg scopeText snapshot reads = Inl (Resolved x)"
  shows "\<exists>i st. Suc i < length reads \<and>
           length snapshot + MIN_NEW_CHARS cfg < length (reads ! i) \<and>
           waitForClaudeResponse cfg scopeText snapshot (take (Suc i) reads) = Inr st \<and>
           phase st = 2"
  using assms unfolding waitForClaudeResponse_def
  by (intro ticks_growth_first) simp_all

text \<open>
  Claim C7. With a snapshot of length 1000 and the constants of the source, on seven polls
  that read texts of the lengths 1000, 1020, 1060, 1060, 1060, 1060, 1060 the detector is in
  phase 1 after the first and the second poll, enters phase 2 at the third, is still pending
  with three stable polls counted after the sixth, and resolves at the seventh with
  \<open>extractResponse\<close> of the snapshot and the last text, which filters the trimmed text
  beyond offset 1000.
\<close>

theorem scenario_1000:
  assumes "length snapshot = 1000"
    and "map length [r1, r2, r3, r4, r5, r6, r7] = [1000, 1020, 1060, 1060, 1060, 1060, 1060]"
  shows "(\<exists>st. waitForClaudeResponse defaults scopeText snapshot [r1] = Inr st \<and> phase st = 1) \<and>
         (\<exists>st. waitForClaudeResponse defaults scopeText snapshot [r1, r2] = Inr st \<and> phase st = 1) \<and>
         (\<exists>st. waitForClaudeResponse defaults scopeText snapshot [r1, r2, r3] = Inr st \<and>
               phase st = 2 \<and> stableCount st = 0) \<and>
         (\<exists>st. waitForClaudeResponse defaults scopeText snapshot [r1, r2, r3, r4, r5, r6] = Inr st \<and>
               phase st = 2 \<and> stableCount st = 3) \<and>
         waitForClaudeResponse defaults scopeText snapshot [r1, r2, r3, r4, r5, r6, r7]
           = Inl (Resolved (extractResponse snapshot r7)) \<and>
         extractResponse snapshot r7 =
           trim (join [LF] (filter (\<lambda>l. 10 < length l) (map trim (splitLines (trim (drop 1000 r7))))))"
  using assms
  by (simp add: waitForClaudeResponse_def tick_def defaults_def extractResponse_def slice_def)

theorem scenario_1000_witness:
  "length page1000 = 1000 \<and>
   map length scenarioReads = [1000, 1020, 1060, 1060, 1060, 1060, 1060] \<and>
   waitForClaudeResponse defaults page1000 page1000 scenarioReads = Inl (Resolved realParagraph)"
proof -
  have len: "length page1000 = 1000" by (simp add: page1000_def)
  from scenario_1000 [OF len scenario_lengths [unfolded scenarioReads_def], of page1000] len
    scenario_lengths
  show ?thesis by (simp add: scenarioReads_def extract_reply60)
qed

lemma scenario_resolves:
  "waitForClaudeResponse defaults page1000 page1000 scenarioReads = Inl (Resolved realParagraph)"
  by (simp add: scenarioReads_def waitForClaudeResponse_def tick_def defaults_def page1000_def
      length_reply60 extract_reply60 [unfolded page1000_def])

theorem no_success_before_growth_witness:
  "waitForClaudeResponse defaults page1000 page1000 scenarioReads = Inl (Resolved realParagraph) \<and>
   (\<exists>i st. Suc i < length scenarioReads \<and>
      length page1000 + MIN_NEW_CHARS defaults < length (scenarioReads ! i) \<and>
      waitForClaudeResponse defaults page1000 page1000 (take (Suc i) scenarioReads) = Inr st \<and>
      phase st = 2)"
  using no_success_before_growth [OF scenario_resolves] scenario_resolves by simp

text \<open>
  Claim C4. When the detector is pending in phase 2 and has not run out of time, a poll
  that reads a text whose length differs from \<open>lastLength\<close> leaves the detector pending
  with \<open>stableCount = 0\<close>, whatever the polls before were.
\<close>

theorem stability_counter_reset:
  assumes "waitForClaudeResponse cfg scopeText snapshot reads = Inr st"
    and "phase st = 2"
    and "elapsed st < TIMEOUT_MS cfg"
    and "length currentText \<noteq> lastLength st"
  shows "\<exists>st'. waitForClaudeResponse cfg scopeText snapshot (reads @ [currentText]) = Inr st' \<and>
           stableCount st' = 0"
  using assms unfolding waitForClaudeResponse_def
  by (simp add: ticks_append tick_def)

theorem stability_counter_reset_witness:
  "waitForClaudeResponse defaults page1000 page1000 (take 4 scenarioReads)
     = Inr \<lparr>phase = 2, lastLength = 1060, stableCount = 1, elapsed = 2000\<rparr> \<and>
   length (page1000 @ reply60 @ [0x21]) = 1061 \<and>
   (\<exists>st'. waitForClaudeResponse defaults page1000 page1000
            (take 4 scenarioReads @ [page1000 @ reply60 @ [0x21]]) = Inr st' \<and>
          stableCount st' = 0)"
proof -
  have pending: "waitForClaudeResponse defaults page1000 page1000 (take 4 scenarioReads)
     = Inr \<lparr>phase = 2, lastLength = 1060, stableCount = 1, elapsed = 2000\<rparr>"
    by (simp add: scenarioReads_def waitForClaudeResponse_def tick_def defaults_def page1000_def
        length_reply60)
  have len: "length (page1000 @ reply60 @ [0x21]) = 1061"
    by (simp add: page1000_def length_reply60)
  from stability_counter_reset [OF pending, of "page1000 @ reply60 @ [0x21]"] pending len
  show ?thesis by (simp add: defaults_def)
qed

section \<open>Properties of the injection flow\<close>

text \<open>
  Claim C8. When the detector resolves with the empty string, that is, when nothing is left
  of the response after the line filter, a run of the injection flow sends no
  \<open>CLAUDE_RESPONSE\<close> message; if the input field was found it ends in the branch that
  warns and returns.
\<close>

theorem empty_extraction_not_sent:
  assumes "waitForClaudeResponse defaults (textAfterSubmit page) (textAtSnapshot page)
             (textAtPolls page) = Inl (Resolved [])"
  shows "sentToBackground (runInjectionFlow page block) = [] \<and>
         (inputFound page \<longrightarrow> runInjectionFlow page block = EmptyNotSent)"
  using assms by (simp add: runInjectionFlow_def submitClaudeInput_def Let_def)

theorem empty_extraction_not_sent_witness:
  "waitForClaudeResponse defaults (textAfterSubmit noisyPage) (textAtSnapshot noisyPage)
     (textAtPolls noisyPage) = Inl (Resolved []) \<and>
   sentToBackground (runInjectionFlow noisyPage (js ''context'')) = [] \<and>
   runInjectionFlow noisyPage (js ''context'') = EmptyNotSent"
proof -
  have empty: "waitForClaudeResponse defaults (textAfterSubmit noisyPage) (textAtSnapshot noisyPage)
     (textAtPolls noisyPage) = Inl (Resolved [])"
    by (simp add: noisyPage_def waitForClaudeResponse_def tick_def defaults_def
        length_shortLines extract_shortLines)
  from empty_extraction_not_sent [OF empty, of "js ''context''"] empty
  show ?thesis by (simp add: noisyPage_def)
qed

section \<open>Properties of the formatter\<close>

lemma unat_hexDigit: "d < 16 \<Longrightarrow> unat (hexDigit d) = (if d < 10 then 48 + d else 87 + d)"
  by (simp add: hexDigit_def unat_of_nat del: of_nat_add)

lemma hexValue_hexDigit: "d < 16 \<Longrightarrow> hexValue (hexDigit d) = Some d"
  by (simp add: hexValue_def word_le_nat_alt unat_hexDigit)

lemma hex_digits_value:
  fixes n :: nat
  shows "((n div 4096 * 16 + n div 256 mod 16) * 16 + n div 16 mod 16) * 16 + n mod 16 = n"
proof -
  have a: "n div 256 = n div 4096 * 16 + n div 256 mod 16"
    using div_mult_mod_eq [of "n div 256" 16] by (simp add: div_mult2_eq [symmetric])
  have b: "n div 16 = n div 256 * 16 + n div 16 mod 16"
    using div_mult_mod_eq [of "n div 16" 16] by (simp add: div_mult2_eq [symmetric])
  have c: "n = n div 16 * 16 + n mod 16"
    by simp
  from a b c show ?thesis by presburger
qed

lemma parseHex4_unicodeEscape:
  "parseHex4 (hexDigit (unat c div 4096)) (hexDigit (unat c div 256 mod 16))
     (hexDigit (unat c div 16 mod 16)) (hexDigit (unat c mod 16)) = Some c"
proof -
  have "unat c < 2 ^ 16" using unsigned_less [of c, where ?'a = nat] by simp
  then have "unat c div 4096 < 16" by simp
  then have digits:
    "hexValue (hexDigit (unat c div 4096)) = Some (unat c div 4096)"
    "hexValue (hexDigit (unat c div 256 mod 16)) = Some (unat c div 256 mod 16)"
    "hexValue (hexDigit (unat c div 16 mod 16)) = Some (unat c div 16 mod 16)"
    "hexValue (hexDigit (unat c mod 16)) = Some (unat c mod 16)"
    by (simp_all add: hexValue_hexDigit)
  have "parseHex4 (hexDigit (unat c div 4096)) (hexDigit (unat c div 256 mod 16))
     (hexDigit (unat c div 16 mod 16)) (hexDigit (unat c mod 16))
      = Some (of_nat (((unat c div 4096 * 16 + unat c div 256 mod 16) * 16
                        + unat c div 16 mod 16) * 16 + unat c mod 16))"
    unfolding parseHex4_def digits by (simp only: option.case prod.case)
  also have "\<dots> = Some (of_nat (unat c))"
    by (simp only: hex_digits_value)
  finally show ?thesis by simp
qed

lemma parseChars_quoteUnit:
  "parseChars (quoteUnit c @ t) = consResult c (parseChars t)"
  by (simp add: quoteUnit_def unicodeEscape_def parseHex4_unicodeEscape unescape_def)

lemma parseChars_surrogate:
  "isLeadingSurrogate c \<or> isTrailingSurrogate c \<Longrightarrow>
     parseChars (c # t) = consResult c (parseChars t)"
  by (auto simp: isLeadingSurrogate_def isTrailingSurrogate_def word_le_nat_alt word_less_nat_alt)

lemma parseChars_quoteCodePoints:
  "parseChars (quoteCodePoints s @ 0x22 # rest) = Some (s, rest)"
proof (induction s rule: quoteCodePoints.induct)
  case 1
  show ?case by simp
next
  case (2 c)
  show ?case by (simp add: parseChars_quoteUnit consResult_def)
next
  case (3 c d ds)
  show ?case
  proof (cases "isLeadingSurrogate c \<and> isTrailingSurrogate d")
    case True
    with 3 show ?thesis
      by (simp add: parseChars_surrogate consResult_def del: parseChars.simps)
  next
    case False
    with 3 show ?thesis
      by (auto simp add: parseChars_quoteUnit consResult_def simp del: parseChars.simps)
  qed
qed

lemma parseStringLit_quoteJSONString:
  "parseStringLit (quoteJSONString s @ rest) = Some (s, rest)"
  by (simp add: parseStringLit_def quoteJSONString_def parseChars_quoteCodePoints
      del: parseChars.simps)

lemma skipSpace_spaces:
  "\<forall>c \<in> set ws. isJsonSpace c \<Longrightarrow> skipSpace (ws @ t) = skipSpace t"
  by (induction ws) (simp_all add: skipSpace_def)

lemma skipSpace_quoted [simp]: "skipSpace (quoteJSONString s @ t) = quoteJSONString s @ t"
  by (simp add: skipSpace_def quoteJSONString_def isJsonSpace_def)

lemma parseElements_spaces:
  "\<forall>c \<in> set ws. isJsonSpace c \<Longrightarrow> parseElements (ws @ t) = parseElements t"
  by (simp add: parseElements.simps [of "ws @ t"] parseElements.simps [of t] skipSpace_spaces)

lemma parseElements_join:
  assumes "\<forall>c \<in> set ws. isJsonSpace c" "\<forall>c \<in> set ws'. isJsonSpace c" "xs \<noteq> []"
  shows "parseElements (join (0x2C # ws) (map quoteJSONString xs) @ ws' @ 0x5D # rest)
           = Some (xs, rest)"
  using assms(3)
proof (induction xs rule: list_nonempty_induct)
  case (single x)
  have "skipSpace (ws' @ 0x5D # rest) = 0x5D # rest"
    using assms(2) by (simp add: skipSpace_spaces) (simp add: skipSpace_def isJsonSpace_def)
  then show ?case
    by (simp add: parseElements.simps [of "quoteJSONString x @ ws' @ 0x5D # rest"]
        parseStringLit_quoteJSONString)
next
  case (cons x xs)
  then obtain y ys where xs: "xs = y # ys" by (cases xs) auto
  let ?tail = "join (0x2C # ws) (map quoteJSONString xs) @ ws' @ 0x5D # rest"
  have skip: "skipSpace (0x2C # ws @ ?tail) = 0x2C # ws @ ?tail"
    by (simp add: skipSpace_def isJsonSpace_def)
  have "parseElements (quoteJSONString x @ 0x2C # ws @ ?tail)
          = consResult x (parseElements (ws @ ?tail))"
    by (simp add: parseElements.simps [of "quoteJSONString x @ 0x2C # ws @ ?tail"]
        parseStringLit_quoteJSONString skip)
  also have "\<dots> = Some (x # xs, rest)"
    using cons.IH assms(1) by (simp add: parseElements_spaces consResult_def)
  finally show ?case by (simp add: xs)
qed

lemma gap_spaces: "\<forall>c \<in> set gap. isJsonSpace c"
  by (simp add: gap_def js_def isJsonSpace_def)

lemma LF_space: "isJsonSpace LF"
  by (simp add: LF_def isJsonSpace_def)

lemma join_quoted_head:
  "xs \<noteq> [] \<Longrightarrow> \<exists>u. join sep (map quoteJSONString xs) = 0x22 # u"
proof (cases xs)
  case Nil
  assume "xs \<noteq> []"
  with Nil show ?thesis by simp
next
  case (Cons x ys)
  then show ?thesis by (cases ys) (simp_all add: quoteJSONString_def)
qed

lemma parseArray_serialized:
  assumes "\<forall>c \<in> set indent. isJsonSpace c" "xs \<noteq> []"
  shows "parseArray ([LF] @ (indent @ gap) @
            join (js '','' @ [LF] @ (indent @ gap)) (map quoteJSONString xs) @
            [LF] @ indent @ js '']'' @ rest) = Some (xs, rest)"
proof -
  let ?sep = "0x2C # LF # indent @ gap"
  let ?elems = "join ?sep (map quoteJSONString xs)"
  let ?tail = "?elems @ (LF # indent) @ 0x5D # rest"
  have ws: "\<forall>c \<in> set (LF # indent @ gap). isJsonSpace c"
    using assms(1) gap_spaces LF_space by auto
  have ws': "\<forall>c \<in> set (LF # indent). isJsonSpace c"
    using assms(1) LF_space by auto
  have shape: "[LF] @ (indent @ gap) @
            join (js '','' @ [LF] @ (indent @ gap)) (map quoteJSONString xs) @
            [LF] @ indent @ js '']'' @ rest = (LF # indent @ gap) @ ?tail"
    by (simp add: js_def)
  from join_quoted_head [OF assms(2)] obtain u where u: "?elems = 0x22 # u" by blast
  have "skipSpace ((LF # indent @ gap) @ ?tail) = skipSpace ?tail"
    using ws by (rule skipSpace_spaces)
  also have "\<dots> = 0x22 # u @ (LF # indent) @ 0x5D # rest"
    by (simp add: u skipSpace_def isJsonSpace_def)
  finally have "parseArray ((LF # indent @ gap) @ ?tail) = parseElements ((LF # indent @ gap) @ ?tail)"
    by (simp add: parseArray_def)
  also have "\<dots> = parseElements ?tail"
    using ws by (rule parseElements_spaces)
  also have "\<dots> = Some (xs, rest)"
    using ws ws' assms(2) by (rule parseElements_join)
  finally show ?thesis by (simp only: shape)
qed

lemma parseValue_serialized:
  assumes "\<forall>c \<in> set indent. isJsonSpace c"
  shows "parseValue (serializeJSONProperty indent v @ rest) = Some (v, rest)"
proof (cases v)
  case (JString x)
  then show ?thesis
    by (simp add: parseValue_def quoteJSONString_def parseChars_quoteCodePoints
        del: parseChars.simps)
next
  case (JArray xs)
  show ?thesis
  proof (cases "xs = []")
    case True
    with JArray show ?thesis
      by (simp add: parseValue_def parseArray_def js_def skipSpace_def isJsonSpace_def)
  next
    case False
    from parseArray_serialized [OF assms False, of rest] JArray False show ?thesis
      by (simp add: parseValue_def js_def)
  qed
qed

lemma skipSpace_serialized [simp]:
  "skipSpace (serializeJSONProperty indent v @ t) = serializeJSONProperty indent v @ t"
  by (cases v) (simp_all add: skipSpace_def isJsonSpace_def js_def quoteJSONString_def)

lemma parseMembers_spaces:
  "\<forall>c \<in> set ws. isJsonSpace c \<Longrightarrow> parseMembers (ws @ t) = parseMembers t"
  by (simp add: parseMembers.simps [of "ws @ t"] parseMembers.simps [of t] skipSpace_spaces)

lemma parseMembers_one:
  assumes "skipSpace r = d # ds"
  shows "parseMembers (member (k, v) @ r) =
           (if d = 0x2C then consResult (k, v) (parseMembers ds)
            else if d = 0x7D then Some ([(k, v)], ds) else None)"
proof -
  let ?text = "serializeJSONProperty gap v @ r"
  have colon: "skipSpace (js '': '' @ ?text) = 0x3A # 0x20 # ?text"
    by (simp add: js_def skipSpace_def isJsonSpace_def)
  have sp: "skipSpace (0x20 # ?text) = ?text"
    using skipSpace_spaces [of "[0x20]" ?text] by (simp add: isJsonSpace_def)
  show ?thesis
    by (simp add: member_def
        parseMembers.simps [of "quoteJSONString k @ js '': '' @ serializeJSONProperty gap v @ r"]
        parseStringLit_quoteJSONString colon sp parseValue_serialized [OF gap_spaces] assms)
qed

lemma parseMembers_join:
  assumes "\<forall>c \<in> set ws. isJsonSpace c" "\<forall>c \<in> set ws'. isJsonSpace c" "props \<noteq> []"
  shows "parseMembers (join (0x2C # ws) (map member props) @ ws' @ 0x7D # rest)
           = Some (props, rest)"
  using assms(3)
proof (induction props rule: list_nonempty_induct)
  case (single p)
  obtain k v where p: "p = (k, v)" by (cases p)
  have "skipSpace (ws' @ 0x7D # rest) = 0x7D # rest"
    using assms(2) by (simp add: skipSpace_spaces) (simp add: skipSpace_def isJsonSpace_def)
  from parseMembers_one [OF this, of k v] show ?case by (simp add: p)
next
  case (cons p ps)
  obtain k v where p: "p = (k, v)" by (cases p)
  from cons obtain q qs where ps: "ps = q # qs" by (cases ps) auto
  let ?tail = "join (0x2C # ws) (map member ps) @ ws' @ 0x7D # rest"
  have "skipSpace (0x2C # ws @ ?tail) = 0x2C # ws @ ?tail"
    by (simp add: skipSpace_def isJsonSpace_def)
  from parseMembers_one [OF this, of k v]
  have "parseMembers (member (k, v) @ 0x2C # ws @ ?tail) = consResult (k, v) (parseMembers (ws @ ?tail))"
    by simp
  also have "\<dots> = Some (p # ps, rest)"
    using cons.IH assms(1) by (simp add: parseMembers_spaces consResult_def p)
  finally show ?case by (simp add: ps p)
qed

lemma parseObject_serialized:
  assumes "props \<noteq> []"
  shows "parseObject (serializeJSONObject props @ rest) = Some (props, rest)"
proof -
  let ?members = "join (0x2C # LF # gap) (map member props)"
  let ?tail = "?members @ [LF] @ 0x7D # rest"
  have shape: "serializeJSONObject props @ rest = 0x7B # (LF # gap) @ ?tail"
    using assms by (simp add: serializeJSONObject_def js_def member_def)
  have ws: "\<forall>c \<in> set (LF # gap). isJsonSpace c"
    using gap_spaces LF_space by auto
  have ws': "\<forall>c \<in> set [LF]. isJsonSpace c"
    using LF_space by simp
  obtain p ps where props: "props = p # ps" using assms by (cases props) auto
  obtain k v where p: "p = (k, v)" by (cases p)
  have "\<exists>u. ?members = 0x22 # u"
    by (cases ps) (simp_all add: props p member_def quoteJSONString_def)
  then obtain u where u: "?members = 0x22 # u" by blast
  have "skipSpace ((LF # gap) @ ?tail) = skipSpace ?tail"
    using ws by (rule skipSpace_spaces)
  also have "\<dots> = 0x22 # u @ [LF] @ 0x7D # rest"
    by (simp add: u skipSpace_def isJsonSpace_def)
  finally have "parseObject (0x7B # (LF # gap) @ ?tail) = parseMembers ((LF # gap) @ ?tail)"
    by (simp add: parseObject_def)
  also have "\<dots> = parseMembers ?tail"
    using ws by (rule parseMembers_spaces)
  also have "\<dots> = Some (props, rest)"
    using ws ws' assms by (rule parseMembers_join)
  finally show ?thesis by (simp only: shape)
qed

text \<open>
  Claim C9. For every summary, reading the formatted context block back gives the five
  fields \<open>topic\<close>, \<open>user_goal\<close>, \<open>important_facts\<close>, \<open>decisions_made\<close> and
  \<open>current_task\<close> of the summary after defaulting: a string property that is missing,
  falsy or empty is the empty string, an array property that is missing or falsy is the
  empty array. The reader never fails on a formatted block, also when all five fields are
  empty.
\<close>

theorem format_then_extract:
  "extractSummary (formatContextBlock s) = Some (defaulted s)"
proof -
  let ?props = "[(js ''topic'', JString (orEmptyString (topic s))),
      (js ''user_goal'', JString (orEmptyString (user_goal s))),
      (js ''important_facts'', JArray (orEmptyArray (important_facts s))),
      (js ''decisions_made'', JArray (orEmptyArray (decisions_made s))),
      (js ''current_task'', JString (orEmptyString (current_task s)))]"
  let ?closing = "[LF, LF] @ question s"
  have block: "formatContextBlock s = blockHeader @ serializeJSONObject ?props @ ?closing"
    by (simp add: formatContextBlock_def blockHeader_def contextJson_def)
  then have "stripHeader (formatContextBlock s) = Some (serializeJSONObject ?props @ ?closing)"
    by (simp add: stripHeader_def)
  moreover have "parseObject (serializeJSONObject ?props @ ?closing) = Some (?props, ?closing)"
    by (rule parseObject_serialized) simp
  ultimately show ?thesis
    by (simp add: extractSummary_def defaulted_def js_def)
qed

theorem format_then_extract_witness:
  "extractSummary (formatContextBlock emptySummary) =
     Some \<lparr>topic = Value [], user_goal = Value [], important_facts = Value [],
           decisions_made = Value [], current_task = Value []\<rparr> \<and>
   extractSummary (formatContextBlock exampleSummary) =
     Some \<lparr>topic = Value (js ''X''), user_goal = Value [], important_facts = Value [],
           decisions_made = Value [], current_task = Value (js ''do Y'')\<rparr> \<and>
   extractSummary (formatContextBlock awkwardSummary) =
     Some \<lparr>topic = Value [0x22, 0x5C, 0x0A, 0x01, 0xD800], user_goal = Value [],
           important_facts = Value [js ''a'', js ''b,]''], decisions_made = Value [],
           current_task = Value (js ''do Y'')\<rparr>"
  using format_then_extract [of emptySummary] format_then_extract [of exampleSummary]
    format_then_extract [of awkwardSummary]
  by (simp add: defaulted_def emptySummary_def exampleSummary_def awkwardSummary_def js_def)

lemma splitLines_not_Nil: "splitLines s \<noteq> []"
  by (induction s) (auto split: list.splits)

lemma splitLines_append_LF: "splitLines (xs @ LF # ys) = splitLines xs @ splitLines ys"
proof (induction xs)
  case Nil
  show ?case by simp
next
  case (Cons c cs)
  obtain l ls where "splitLines cs = l # ls"
    using splitLines_not_Nil [of cs] by (cases "splitLines cs") auto
  with Cons show ?case by simp
qed

lemma last_splitLines_append_LF: "last (splitLines (xs @ LF # ys)) = last (splitLines ys)"
  by (simp add: splitLines_append_LF splitLines_not_Nil)

lemma splitLines_one_line: "LF \<notin> set s \<Longrightarrow> splitLines s = [s]"
  by (induction s) auto

lemma formatContextBlock_closing:
  "formatContextBlock s = (blockHeader @ contextJson s @ [LF]) @ LF # question s"
  by (simp add: formatContextBlock_def blockHeader_def)

lemma LF_notin_js_generic: "LF \<notin> set (js ''What are your thoughts on the above context?'')"
  by (simp add: js_def LF_def)

lemma LF_notin_js_continue: "LF \<notin> set (js ''Please help me continue with: '')"
  by (simp add: js_def LF_def)

text \<open>
  Claim C10. When \<open>current_task\<close> is missing, empty or another falsy value, the last line
  of the formatted block is the generic question. When it is a non-empty string, the block
  ends with a line feed and \<open>Please help me continue with: \<close> followed by the task, which
  is the last line of the block when the task has no line feed. A last line that starts with
  \<open>Please help me continue with: \<close> occurs only for a truthy task.
\<close>

theorem closing_line:
  "(\<not> truthy (current_task s) \<longrightarrow>
      last (splitLines (formatContextBlock s)) = js ''What are your thoughts on the above context?'') \<and>
   (\<forall>task. current_task s = Value task \<and> task \<noteq> [] \<longrightarrow>
      (\<exists>body. formatContextBlock s = body @ [LF] @ js ''Please help me continue with: '' @ task) \<and>
      (LF \<notin> set task \<longrightarrow>
         last (splitLines (formatContextBlock s)) = js ''Please help me continue with: '' @ task)) \<and>
   ((\<exists>t. last (splitLines (formatContextBlock s)) = js ''Please help me continue with: '' @ t)
      \<longrightarrow> truthy (current_task s))"
proof (cases "truthy (current_task s)")
  case True
  then obtain task where task: "current_task s = Value task" "task \<noteq> []"
    by (cases "current_task s") auto
  then have q: "question s = js ''Please help me continue with: '' @ task"
    by (simp add: question_def)
  have "formatContextBlock s =
          (blockHeader @ contextJson s @ [LF]) @ [LF] @ js ''Please help me continue with: '' @ task"
    by (simp add: formatContextBlock_closing q)
  then have ends: "\<exists>body. formatContextBlock s =
         body @ [LF] @ js ''Please help me continue with: '' @ task"
    by blast
  have "last (splitLines (formatContextBlock s)) = js ''Please help me continue with: '' @ task"
    if "LF \<notin> set task"
  proof -
    from that LF_notin_js_continue
    have "LF \<notin> set (js ''Please help me continue with: '' @ task)" by simp
    then show ?thesis
      by (simp add: formatContextBlock_closing last_splitLines_append_LF q splitLines_one_line
          del: append_assoc)
  qed
  with True ends task show ?thesis by auto
next
  case False
  then have q: "question s = js ''What are your thoughts on the above context?''"
    by (cases "current_task s") (simp_all add: question_def)
  have l: "last (splitLines (formatContextBlock s)) = js ''What are your thoughts on the above context?''"
    by (simp add: formatContextBlock_closing last_splitLines_append_LF q
        splitLines_one_line [OF LF_notin_js_generic] del: append_assoc)
  have "js ''What are your thoughts on the above context?'' \<noteq> js ''Please help me continue with: '' @ t" for t
    by (simp add: js_def)
  with False l show ?thesis by auto
qed

theorem closing_line_witness:
  "\<not> truthy (current_task emptySummary) \<and>
   last (splitLines (formatContextBlock emptySummary))
     = js ''What are your thoughts on the above context?'' \<and>
   \<not> truthy (current_task (exampleSummary\<lparr>current_task := Falsy Zero\<rparr>)) \<and>
   last (splitLines (formatContextBlock (exampleSummary\<lparr>current_task := Falsy Zero\<rparr>)))
     = js ''What are your thoughts on the above context?'' \<and>
   current_task exampleSummary = Value (js ''do Y'') \<and>
   LF \<notin> set (js ''do Y'') \<and>
   last (splitLines (formatContextBlock exampleSummary)) = js ''Please help me continue with: do Y''"
proof -
  have falsy: "\<not> truthy (current_task emptySummary)"
    by (simp add: emptySummary_def)
  have zero: "\<not> truthy (current_task (exampleSummary\<lparr>current_task := Falsy Zero\<rparr>))"
    by simp
  have task: "current_task exampleSummary = Value (js ''do Y'')"
    by (simp add: exampleSummary_def)
  have oneLine: "LF \<notin> set (js ''do Y'')" "js ''do Y'' \<noteq> []"
    by (simp_all add: js_def LF_def)
  from closing_line [of emptySummary] closing_line [of "exampleSummary\<lparr>current_task := Falsy Zero\<rparr>"]
    closing_line [of exampleSummary] falsy zero task oneLine
  show ?thesis by (simp add: js_def)
qed

end
